theory Spec2Isabelle
  imports Main "HOL-Library.Word" "HOL-Library.Sublist"
begin

section \<open>JavaScript strings\<close>

text \<open>
  A JavaScript string is a sequence of UTF-16 code units; \<open>length\<close>, \<open>slice\<close>,
  \<open>endsWith\<close> and \<open>split\<close> all count code units. A string is therefore a list of
  16-bit words. \<open>js\<close> embeds an Isabelle string literal (one code unit per character),
  and \<open>radic\<close> is the keypad label U+221A (the square-root sign), the only string of
  the component that lies outside Latin-1.
\<close>

type_synonym unit16 = "16 word"
type_synonym jsstring = "unit16 list"

definition js :: "string \<Rightarrow> jsstring" where
  "js s = map of_char s"

definition radic :: jsstring where
  "radic = [0x221A]"

text \<open>\<open>s.slice(0, -1)\<close>: all but the last code unit; the empty string stays empty.\<close>

definition slice_init :: "jsstring \<Rightarrow> jsstring" where
  "slice_init s = (case s of [] \<Rightarrow> [] | _ # _ \<Rightarrow> butlast s)"

text \<open>\<open>s.slice(-1)\<close>: the last code unit as a string; empty for the empty string.\<close>

definition slice_last :: "jsstring \<Rightarrow> jsstring" where
  "slice_last s = (case s of [] \<Rightarrow> [] | _ # _ \<Rightarrow> [last s])"

text \<open>\<open>s.endsWith(t)\<close>.\<close>

definition endsWith :: "jsstring \<Rightarrow> jsstring \<Rightarrow> bool" where
  "endsWith s t = (length t \<le> length s \<and> drop (length s - length t) s = t)"

text \<open>
  \<open>s.split(sep)[0]\<close> for a non-empty separator: the part of \<open>s\<close> before the first
  occurrence of \<open>sep\<close>, and all of \<open>s\<close> when \<open>sep\<close> does not occur.
\<close>

fun split_head :: "jsstring \<Rightarrow> jsstring \<Rightarrow> jsstring" where
  "split_head sep [] = []"
| "split_head sep (c # cs) =
     (if take (length sep) (c # cs) = sep then [] else c # split_head sep cs)"

section \<open>The host: mathjs and the number built-ins\<close>

text \<open>
  The component calls four functions that are not its own: \<open>evaluate\<close> of mathjs, and
  \<open>Number.prototype.toFixed\<close>, \<open>parseFloat\<close> and the number-to-string conversion
  of the language. They are parameters of the model. \<open>'v\<close> is what \<open>evaluate\<close>
  returns and \<open>'n\<close> is the type of numbers. \<open>evaluate\<close> may throw (\<open>None\<close>), and
  so may the method call \<open>result.toFixed(3)\<close>, when the value returned by
  \<open>evaluate\<close> has no such method; \<open>parseFloat\<close> and the conversion of a number
  to a string never throw.
\<close>

record ('v, 'n) host =
  evaluate :: "jsstring \<Rightarrow> 'v option"
  toFixed :: "'v \<Rightarrow> nat \<Rightarrow> jsstring option"
  parseFloat :: "jsstring \<Rightarrow> 'n"
  toString :: "'n \<Rightarrow> jsstring"

section \<open>The component state\<close>

record state =
  showResult :: bool
  display :: jsstring
  history :: "jsstring list"
  partialResult :: jsstring

definition init :: state where
  "init = \<lparr>showResult = False, display = [], history = [], partialResult = []\<rparr>"

section \<open>The handlers\<close>

definition isOperator :: "jsstring \<Rightarrow> bool" where
  "isOperator v = (v \<in> set [js ''%'', js ''*'', js ''/'', js ''-'', js ''+''])"

text \<open>
  \<open>calculateResult\<close>: the body of the \<open>try\<close> is the first branch that reaches
  \<open>Some\<close>; both ways of throwing end in the \<open>catch\<close>, which sets the display to
  \<open>Error\<close> and logs.
\<close>

definition calculateResult :: "('v, 'n) host \<Rightarrow> state \<Rightarrow> state" where
  "calculateResult h st =
     (if length (display st) \<noteq> 0 then
        (case evaluate h (display st) of
           None \<Rightarrow> st\<lparr>display := js ''Error''\<rparr>
         | Some r \<Rightarrow>
             (case toFixed h r 3 of
                None \<Rightarrow> st\<lparr>display := js ''Error''\<rparr>
              | Some s \<Rightarrow>
                  (let result = parseFloat h s in
                   st\<lparr>history := history st @ [display st @ js '' = '' @ toString h result],
                      display := toString h result,
                      showResult := True\<rparr>)))
      else st)"

definition handleButton :: "('v, 'n) host \<Rightarrow> jsstring \<Rightarrow> state \<Rightarrow> state" where
  "handleButton h v st =
     (let st1 = st\<lparr>showResult := False\<rparr> in
      if v = js ''AC'' then st1\<lparr>display := []\<rparr>
      else if v = js ''C'' then st1\<lparr>display := slice_init (display st)\<rparr>
      else if v = js ''='' then calculateResult h st1
      else if v \<in> set [js ''sin'', js ''cos'', js ''tan'', radic, js ''('', js '')''] then
        (if v = radic then st1\<lparr>display := display st @ js ''sqrt(''\<rparr>
         else if v \<in> set [js ''sin'', js ''cos'', js ''tan''] then
           st1\<lparr>display := display st @ v @ js ''(''\<rparr>
         else st1\<lparr>display := display st @ v\<rparr>)
      else if isOperator v then
        (if display st = [] \<or> isOperator (slice_last (display st)) then st1
         else st1\<lparr>display := display st @ v\<rparr>)
      else if v = js ''.'' then
        (if endsWith (display st) (js ''.'') then st1
         else st1\<lparr>display := display st @ v\<rparr>)
      else st1\<lparr>display := display st @ v\<rparr>)"

definition handleHistoryClick :: "jsstring \<Rightarrow> state \<Rightarrow> state" where
  "handleHistoryClick item st =
     (let expression = split_head (js '' = '') item in
      st\<lparr>display := expression, showResult := False\<rparr>)"

text \<open>
  The effect that keeps the partial result.
\<close>

definition partialEffect :: "('v, 'n) host \<Rightarrow> state \<Rightarrow> state" where
  "partialEffect h st =
     (if display st = [] \<or> showResult st then st\<lparr>partialResult := []\<rparr>
      else
        (case evaluate h (display st) of
           None \<Rightarrow> st\<lparr>partialResult := []\<rparr>
         | Some r \<Rightarrow>
             (case toFixed h r 3 of
                None \<Rightarrow> st\<lparr>partialResult := []\<rparr>
              | Some s \<Rightarrow>
                  (let result = parseFloat h s in
                   st\<lparr>partialResult := toString h result\<rparr>))))"

text \<open>
  After a handler has run the component renders again, and the effect runs when its
  dependency array \<open>[display, showResult]\<close> differs from that of the render before.
\<close>

definition rerender :: "('v, 'n) host \<Rightarrow> state \<Rightarrow> state \<Rightarrow> state" where
  "rerender h old new =
     (if (display new, showResult new) = (display old, showResult old)
      then new else partialEffect h new)"

text \<open>One user event: a click on a key of the keypad, or on an item of the history list.\<close>

datatype event = KeyClick jsstring | HistoryClick jsstring

fun step :: "('v, 'n) host \<Rightarrow> event \<Rightarrow> state \<Rightarrow> state" where
  "step h (KeyClick v) st = rerender h st (handleButton h v st)"
| "step h (HistoryClick item) st = rerender h st (handleHistoryClick item st)"

text \<open>A sequence of events, oldest first.\<close>

fun run :: "('v, 'n) host \<Rightarrow> event list \<Rightarrow> state \<Rightarrow> state" where
  "run h [] st = st"
| "run h (e # es) st = run h es (step h e st)"

text \<open>
  The states the component can be in: it is mounted in \<open>init\<close>; the user clicks a
  key of the keypad \<open>ks\<close>, or an item that the history list shows.
\<close>

inductive reachable :: "('v, 'n) host \<Rightarrow> jsstring list \<Rightarrow> state \<Rightarrow> bool"
  for h :: "('v, 'n) host" and ks :: "jsstring list" where
  reach_init: "reachable h ks init"
| reach_key: "reachable h ks st \<Longrightarrow> v \<in> set ks \<Longrightarrow> reachable h ks (step h (KeyClick v) st)"
| reach_history: "reachable h ks st \<Longrightarrow> item \<in> set (history st) \<Longrightarrow>
     reachable h ks (step h (HistoryClick item) st)"

text \<open>
  Modelled from the spec: the table \<open>keys\<close> of \<open>../utils/constants\<close> is not among
  the sources. These are the key labels that the specification of the state manager
  names: the three commands, the functions, the root, the parentheses, the binary
  operators, the decimal point and the ten digits.
\<close>

definition keys :: "jsstring list" where
  "keys = [js ''AC'', js ''C'', js ''='', js ''sin'', js ''cos'', js ''tan'', radic,
           js ''('', js '')'', js ''%'', js ''*'', js ''/'', js ''-'', js ''+'', js ''.'',
           js ''0'', js ''1'', js ''2'', js ''3'', js ''4'', js ''5'', js ''6'', js ''7'',
           js ''8'', js ''9'']"

section \<open>Derived notions used in the statements\<close>

text \<open>
  What the two \<open>try\<close> blocks compute before they touch the state: the value of
  \<open>parseFloat(evaluate(d).toFixed(3))\<close>, or \<open>None\<close> when one of the calls throws.
\<close>

definition rounded :: "('v, 'n) host \<Rightarrow> jsstring \<Rightarrow> 'n option" where
  "rounded h d =
     (case evaluate h d of
        None \<Rightarrow> None
      | Some r \<Rightarrow> (case toFixed h r 3 of None \<Rightarrow> None | Some s \<Rightarrow> Some (parseFloat h s)))"

text \<open>
  The specification's reading of a sequence of key presses, in its own words: a key
  is rejected when it is a leading operator, a consecutive operator or a repeated
  decimal point; an accepted key contributes its text, which is the label, with an
  opening parenthesis after a function name and \<open>sqrt(\<close> for the root.
\<close>

definition appended :: "jsstring \<Rightarrow> jsstring" where
  "appended v =
     (if v = radic then js ''sqrt(''
      else if v \<in> set [js ''sin'', js ''cos'', js ''tan''] then v @ js ''(''
      else v)"

definition rejected :: "jsstring \<Rightarrow> jsstring \<Rightarrow> bool" where
  "rejected e v =
     (if isOperator v then (e = [] \<or> isOperator [last e])
      else if v = js ''.'' then (e \<noteq> [] \<and> [last e] = js ''.'')
      else False)"

fun accepted_concat :: "jsstring \<Rightarrow> jsstring list \<Rightarrow> jsstring" where
  "accepted_concat e [] = e"
| "accepted_concat e (v # vs) =
     accepted_concat (if rejected e v then e else e @ appended v) vs"

text \<open>
  The shape of an expression: two neighbouring code units that both satisfy \<open>P\<close>,
  for the binary operators and for the decimal point, and an operator in front.
\<close>

fun adjacent :: "(unit16 \<Rightarrow> bool) \<Rightarrow> jsstring \<Rightarrow> bool" where
  "adjacent P (a # b # cs) = ((P a \<and> P b) \<or> adjacent P (b # cs))"
| "adjacent P [a] = False"
| "adjacent P [] = False"

definition adjacent_ops :: "jsstring \<Rightarrow> bool" where
  "adjacent_ops s = adjacent (\<lambda>c. isOperator [c]) s"

definition adjacent_dots :: "jsstring \<Rightarrow> bool" where
  "adjacent_dots s = adjacent (\<lambda>c. [c] = js ''.'') s"

definition starts_with_operator :: "jsstring \<Rightarrow> bool" where
  "starts_with_operator s = (case s of [] \<Rightarrow> False | c # _ \<Rightarrow> isOperator [c])"

text \<open>A label without any operator or decimal point in it.\<close>

definition plain :: "jsstring \<Rightarrow> bool" where
  "plain k = list_all (\<lambda>c. \<not> isOperator [c] \<and> [c] \<noteq> js ''.'') k"

text \<open>
  \<open>result_led H s\<close>: the history \<open>H\<close> holds a record \<open>d = r\<close> whose result \<open>r\<close>
  starts with an operator, the one that \<open>s\<close> starts with. \<open>tidy H s\<close>: the
  string \<open>s\<close> has no two operators and no two decimal points in a row, and an
  operator in front of it comes from such a record.
\<close>

definition result_led :: "jsstring list \<Rightarrow> jsstring \<Rightarrow> bool" where
  "result_led H s =
     (\<exists>d r. d @ js '' = '' @ r \<in> set H \<and> starts_with_operator r \<and> hd r = hd s)"

definition tidy :: "jsstring list \<Rightarrow> jsstring \<Rightarrow> bool" where
  "tidy H s =
     (\<not> adjacent_ops s \<and> \<not> adjacent_dots s \<and> (starts_with_operator s \<longrightarrow> result_led H s))"

section \<open>A sample host\<close>

text \<open>
  A host over the integers, for the concrete runs below. Its \<open>evaluate\<close> computes the
  sums and differences of decimal integers, with an optional minus sign in front
  (\<open>50+2\<close>, \<open>1-2\<close>, \<open>-1+2\<close>, \<open>52\<close>), as mathjs does, and throws on every other
  string, among them the incomplete \<open>50+\<close> and the word \<open>Error\<close>. Its \<open>toFixed\<close>
  prints an integer in decimal with the asked number of zeros after the point,
  \<open>parseFloat\<close> reads the sign and the digits of the integer part back, and
  \<open>toString\<close> prints in decimal.
\<close>

text \<open>
  \<open>sumUp acc sg cur s\<close> reads \<open>s\<close> from the left: \<open>acc\<close> is the sum of the terms
  read, \<open>sg\<close> the sign of the term being read and \<open>cur\<close> its digits so far.
\<close>

fun sumUp :: "int \<Rightarrow> int \<Rightarrow> nat option \<Rightarrow> jsstring \<Rightarrow> int option" where
  "sumUp acc sg None [] = None"
| "sumUp acc sg (Some n) [] = Some (acc + sg * int n)"
| "sumUp acc sg cur (c # cs) =
     (if 48 \<le> c \<and> c \<le> 57 then
        sumUp acc sg (Some ((case cur of None \<Rightarrow> 0 | Some n \<Rightarrow> n) * 10 + (unat c - 48))) cs
      else if [c] = js ''+'' \<or> [c] = js ''-'' then
        (case cur of
           None \<Rightarrow> None
         | Some n \<Rightarrow> sumUp (acc + sg * int n) (if [c] = js ''+'' then 1 else - 1) None cs)
      else None)"

definition sums :: "jsstring \<Rightarrow> int option" where
  "sums s =
     (case s of
        [] \<Rightarrow> None
      | c # cs \<Rightarrow> if [c] = js ''-'' then sumUp 0 (- 1) None cs else sumUp 0 1 None s)"

function showNat :: "nat \<Rightarrow> jsstring" where
  "showNat n =
     (if n < 10 then [of_nat (48 + n)] else showNat (n div 10) @ [of_nat (48 + n mod 10)])"
  by pat_completeness auto
termination
  by (relation "measure id") auto

declare showNat.simps [simp del]

definition showInt :: "int \<Rightarrow> jsstring" where
  "showInt i = (if i < 0 then js ''-'' @ showNat (nat (- i)) else showNat (nat i))"

fun readNat :: "jsstring \<Rightarrow> nat \<Rightarrow> nat" where
  "readNat [] acc = acc"
| "readNat (c # cs) acc =
     (if 48 \<le> c \<and> c \<le> 57 then readNat cs (acc * 10 + (unat c - 48)) else acc)"

definition readInt :: "jsstring \<Rightarrow> int" where
  "readInt s =
     (case s of
        [] \<Rightarrow> 0
      | c # cs \<Rightarrow> if [c] = js ''-'' then - int (readNat cs 0) else int (readNat s 0))"

definition sample :: "(int, int) host" where
  "sample = \<lparr>
     evaluate = sums,
     toFixed = (\<lambda>v d. Some (showInt v @ (if d = 0 then [] else js ''.'' @ replicate d 48))),
     parseFloat = readInt,
     toString = showInt\<rparr>"

text \<open>
  The same host with one more value: mathjs evaluates a bare function name to the
  function itself, which is not a number and has no \<open>toFixed\<close> method, so that the
  call \<open>result.toFixed(3)\<close> throws. \<open>sample_fn\<close> does so on the name \<open>sin\<close>.
\<close>

datatype mathval = Number int | Function

definition sample_fn :: "(mathval, int) host" where
  "sample_fn = \<lparr>
     evaluate = (\<lambda>s. if s = js ''sin'' then Some Function else map_option Number (sums s)),
     toFixed = (\<lambda>v d. case v of Number i \<Rightarrow> toFixed sample i d | Function \<Rightarrow> None),
     parseFloat = readInt,
     toString = showInt\<rparr>"

section \<open>Facts about strings and keys\<close>

text \<open>The definitions that the simplifier unfolds to run the model on a concrete input.\<close>

lemmas run_defs =
  handleButton_def calculateResult_def handleHistoryClick_def partialEffect_def rerender_def
  slice_init_def slice_last_def endsWith_def isOperator_def radic_def init_def js_def Let_def
  sample_def sums_def showInt_def showNat.simps readInt_def numeral_3_eq_3

lemma isOperator_cases:
  "isOperator v \<longleftrightarrow> v = js ''%'' \<or> v = js ''*'' \<or> v = js ''/'' \<or> v = js ''-'' \<or> v = js ''+''"
  by (simp add: isOperator_def)

lemma isOperator_not_command:
  assumes "isOperator v"
  shows "v \<noteq> js ''AC''" and "v \<noteq> js ''C''" and "v \<noteq> js ''=''"
    and "v \<notin> set [js ''sin'', js ''cos'', js ''tan'', radic, js ''('', js '')'']"
  using assms by (auto simp: isOperator_cases js_def radic_def)

lemma slice_last_nonempty: "d \<noteq> [] \<Longrightarrow> slice_last d = [last d]"
  by (cases d) (simp_all add: slice_last_def)

lemma display_rerender [simp]: "display (rerender h old new) = display new"
  by (simp add: rerender_def partialEffect_def Let_def split: option.splits)

lemma history_rerender [simp]: "history (rerender h old new) = history new"
  by (simp add: rerender_def partialEffect_def Let_def split: option.splits)

lemma showResult_rerender [simp]: "showResult (rerender h old new) = showResult new"
  by (simp add: rerender_def partialEffect_def Let_def split: option.splits)

lemma calculateResult_rounded:
  "calculateResult h st =
     (if display st = [] then st
      else case rounded h (display st) of
             None \<Rightarrow> st\<lparr>display := js ''Error''\<rparr>
           | Some n \<Rightarrow> st\<lparr>history := history st @ [display st @ js '' = '' @ toString h n],
                          display := toString h n, showResult := True\<rparr>)"
  by (simp add: calculateResult_def rounded_def Let_def split: option.splits)

lemma handleButton_equals:
  "handleButton h (js ''='') st = calculateResult h (st\<lparr>showResult := False\<rparr>)"
  by (simp add: handleButton_def js_def)

lemma endsWith_dot: "endsWith e (js ''.'') \<longleftrightarrow> e \<noteq> [] \<and> [last e] = js ''.''"
proof (cases e rule: rev_cases)
  case Nil
  then show ?thesis by (simp add: endsWith_def js_def)
next
  case (snoc ys y)
  then show ?thesis by (simp add: endsWith_def js_def)
qed

lemma rejected_code:
  "rejected e v =
     (if isOperator v then (e = [] \<or> isOperator (slice_last e))
      else if v = js ''.'' then endsWith e (js ''.'')
      else False)"
  by (cases "e = []") (simp_all add: rejected_def endsWith_dot slice_last_nonempty)

text \<open>The handler, with the keys that append told apart from the three commands.\<close>

lemma handleButton_appending:
  assumes "v \<noteq> js ''AC''" and "v \<noteq> js ''C''" and "v \<noteq> js ''=''"
  shows "handleButton h v st =
           (if rejected (display st) v then st\<lparr>showResult := False\<rparr>
            else st\<lparr>showResult := False, display := display st @ appended v\<rparr>)"
proof -
  have app: "appended v =
               (if v = radic then js ''sqrt(''
                else if v \<in> set [js ''sin'', js ''cos'', js ''tan''] then v @ js ''('' else v)"
    by (simp add: appended_def)
  have excl: "\<not> isOperator v \<and> v \<noteq> js ''.''"
    if "v \<in> set [js ''sin'', js ''cos'', js ''tan'', radic, js ''('', js '')'']"
    using that by (auto simp: isOperator_def radic_def js_def)
  have excl2: "isOperator v \<Longrightarrow> v \<noteq> js ''.''"
    by (auto simp: isOperator_def js_def)
  show ?thesis
  proof (cases "v \<in> set [js ''sin'', js ''cos'', js ''tan'', radic, js ''('', js '')'']")
    case True
    with excl have r: "\<not> rejected (display st) v"
      by (simp add: rejected_def)
    have "handleButton h v st = st\<lparr>showResult := False, display := display st @ appended v\<rparr>"
      unfolding handleButton_def Let_def app using assms True
      by (simp only: if_False if_True split: if_split) (auto simp: radic_def js_def)
    then show ?thesis using r by simp
  next
    case False
    then have a: "appended v = v"
      by (auto simp: appended_def)
    show ?thesis
      unfolding handleButton_def Let_def a using assms False excl2
      by (simp only: if_False if_True rejected_code split: if_split) auto
  qed
qed

lemma handleButton_AC: "handleButton h (js ''AC'') st = st\<lparr>showResult := False, display := []\<rparr>"
  by (simp add: handleButton_def)

lemma handleButton_C:
  "handleButton h (js ''C'') st = st\<lparr>showResult := False, display := slice_init (display st)\<rparr>"
  by (simp add: handleButton_def js_def)

lemma reachable_run:
  "reachable h ks st \<Longrightarrow> set vs \<subseteq> set ks \<Longrightarrow> reachable h ks (run h (map KeyClick vs) st)"
proof (induction vs arbitrary: st)
  case Nil
  then show ?case by simp
next
  case (Cons v vs)
  from Cons.prems have "reachable h ks (step h (KeyClick v) st)"
    by (intro reach_key) simp_all
  with Cons show ?case by simp
qed

section \<open>Finalisation\<close>

text \<open>
  C1, as amended. Let the display be non-empty and let \<open>evaluate\<close> return a value.
  When the value is a number (its \<open>toFixed(3)\<close> returns the string \<open>s\<close>),
  \<open>calculateResult\<close> rounds with \<open>parseFloat(result.toFixed(3))\<close>, appends the
  record of the expression and the rounded result (the string
  \<open>expression = result\<close>) at the end of the history, shows the rounded result as a
  string and sets \<open>showResult\<close>; the key \<open>=\<close> does the same from any display
  mode. When the value is not a number, the call of \<open>toFixed\<close> throws inside the
  same \<open>try\<close>: the display becomes \<open>Error\<close>, the history stays as it was and,
  through the key \<open>=\<close>, the component is in editing mode.
\<close>

theorem calculateResult_success:
  assumes "display st \<noteq> []"
    and "evaluate h (display st) = Some r"
  shows "(\<forall>s. toFixed h r 3 = Some s \<longrightarrow>
            calculateResult h st =
              st\<lparr>history := history st @ [display st @ js '' = '' @ toString h (parseFloat h s)],
                 display := toString h (parseFloat h s),
                 showResult := True\<rparr>
          \<and> history (handleButton h (js ''='') st)
              = history st @ [display st @ js '' = '' @ toString h (parseFloat h s)]
          \<and> display (handleButton h (js ''='') st) = toString h (parseFloat h s)
          \<and> showResult (handleButton h (js ''='') st))
       \<and> (toFixed h r 3 = None \<longrightarrow>
            calculateResult h st = st\<lparr>display := js ''Error''\<rparr>
          \<and> history (calculateResult h st) = history st
          \<and> showResult (calculateResult h st) = showResult st
          \<and> handleButton h (js ''='') st = st\<lparr>showResult := False, display := js ''Error''\<rparr>)"
  using assms by (simp add: handleButton_equals calculateResult_def Let_def)

theorem calculateResult_success_witness:
  "calculateResult sample (init\<lparr>display := js ''50+2''\<rparr>) =
     init\<lparr>history := [js ''50+2 = 52''], display := js ''52'', showResult := True\<rparr>
   \<and> history (handleButton sample (js ''='') (init\<lparr>display := js ''50+2''\<rparr>)) = [js ''50+2 = 52'']
   \<and> display (handleButton sample (js ''='') (init\<lparr>display := js ''50+2''\<rparr>)) = js ''52''
   \<and> showResult (handleButton sample (js ''='') (init\<lparr>display := js ''50+2''\<rparr>))
   \<and> handleButton sample_fn (js ''='') (init\<lparr>showResult := True, display := js ''sin''\<rparr>)
       = init\<lparr>display := js ''Error''\<rparr>"
proof -
  have d: "display (init\<lparr>display := js ''50+2''\<rparr>) \<noteq> []"
    by (simp add: js_def)
  have e: "evaluate sample (display (init\<lparr>display := js ''50+2''\<rparr>)) = Some 52"
    by (simp add: sample_def sums_def js_def)
  have f: "toFixed sample 52 3 = Some (js ''52.000'')"
    by (simp add: sample_def showInt_def showNat.simps js_def numeral_3_eq_3)
  have p: "toString sample (parseFloat sample (js ''52.000'')) = js ''52''"
    by (simp add: sample_def showInt_def showNat.simps readInt_def js_def)
  have d': "display (init\<lparr>showResult := True, display := js ''sin''\<rparr>) \<noteq> []"
    by (simp add: js_def)
  have e': "evaluate sample_fn (display (init\<lparr>showResult := True, display := js ''sin''\<rparr>))
              = Some Function"
    by (simp add: sample_fn_def)
  have f': "toFixed sample_fn Function 3 = None"
    by (simp add: sample_fn_def)
  from calculateResult_success [OF d e] f
  have a: "calculateResult sample (init\<lparr>display := js ''50+2''\<rparr>) =
             (init\<lparr>display := js ''50+2''\<rparr>)
               \<lparr>history := history (init\<lparr>display := js ''50+2''\<rparr>)
                    @ [display (init\<lparr>display := js ''50+2''\<rparr>) @ js '' = ''
                       @ toString sample (parseFloat sample (js ''52.000''))],
                display := toString sample (parseFloat sample (js ''52.000'')),
                showResult := True\<rparr>
           \<and> history (handleButton sample (js ''='') (init\<lparr>display := js ''50+2''\<rparr>))
               = history (init\<lparr>display := js ''50+2''\<rparr>)
                   @ [display (init\<lparr>display := js ''50+2''\<rparr>) @ js '' = ''
                      @ toString sample (parseFloat sample (js ''52.000''))]
           \<and> display (handleButton sample (js ''='') (init\<lparr>display := js ''50+2''\<rparr>))
               = toString sample (parseFloat sample (js ''52.000''))
           \<and> showResult (handleButton sample (js ''='') (init\<lparr>display := js ''50+2''\<rparr>))"
    by blast
  from calculateResult_success [OF d' e'] f'
  have b: "handleButton sample_fn (js ''='') (init\<lparr>showResult := True, display := js ''sin''\<rparr>)
             = (init\<lparr>showResult := True, display := js ''sin''\<rparr>)
                 \<lparr>showResult := False, display := js ''Error''\<rparr>"
    by blast
  from a [unfolded p] b show ?thesis
    by (simp add: init_def js_def)
qed

text \<open>
  The claim as it was stated asks only that the evaluator succeeds. After the keys
  \<open>sin\<close>, \<open>C\<close> the display is \<open>sin\<close>; the evaluator returns on it, with the
  function, and the key \<open>=\<close> leaves the display \<open>Error\<close>, no record in the
  history and the editing mode.
\<close>

theorem function_value_counterexample:
  "reachable sample_fn keys (run sample_fn (map KeyClick [js ''sin'', js ''C'']) init)
   \<and> display (run sample_fn (map KeyClick [js ''sin'', js ''C'']) init) = js ''sin''
   \<and> evaluate sample_fn (js ''sin'') = Some Function
   \<and> step sample_fn (KeyClick (js ''=''))
        (run sample_fn (map KeyClick [js ''sin'', js ''C'']) init)
       = \<lparr>showResult = False, display = js ''Error'', history = [], partialResult = []\<rparr>"
proof -
  let ?vs = "[js ''sin'', js ''C'']"
  have r: "reachable sample_fn keys (run sample_fn (map KeyClick ?vs) init)"
    by (rule reachable_run [OF reach_init]) (simp add: keys_def)
  have s: "run sample_fn (map KeyClick ?vs) init =
             \<lparr>showResult = False, display = js ''sin'', history = [], partialResult = []\<rparr>"
    by (simp add: sample_fn_def run_defs)
  have e: "evaluate sample_fn (js ''sin'') = Some Function"
    by (simp add: sample_fn_def)
  have t: "step sample_fn (KeyClick (js ''=''))
             \<lparr>showResult = False, display = js ''sin'', history = [], partialResult = []\<rparr>
           = \<lparr>showResult = False, display = js ''Error'', history = [], partialResult = []\<rparr>"
    by (simp add: sample_fn_def run_defs)
  from r e t show ?thesis
    unfolding s by simp
qed

text \<open>
  C2. When the display is not empty and \<open>evaluate\<close> throws, \<open>calculateResult\<close>
  returns a state all the same (the \<open>catch\<close> branch): the display is the string
  \<open>Error\<close>, the history is the one before, and \<open>showResult\<close> is untouched; through
  the key \<open>=\<close>, which has reset it, the display mode is editing.
\<close>

theorem calculateResult_failure:
  assumes "display st \<noteq> []"
    and "evaluate h (display st) = None"
  shows "calculateResult h st = st\<lparr>display := js ''Error''\<rparr>
       \<and> display (calculateResult h st) = js ''Error''
       \<and> history (calculateResult h st) = history st
       \<and> showResult (calculateResult h st) = showResult st
       \<and> handleButton h (js ''='') st = st\<lparr>showResult := False, display := js ''Error''\<rparr>"
  using assms by (simp add: handleButton_equals calculateResult_def)

theorem calculateResult_failure_witness:
  "calculateResult sample (init\<lparr>display := js ''50+''\<rparr>) = init\<lparr>display := js ''Error''\<rparr>
   \<and> history (calculateResult sample (init\<lparr>display := js ''50+''\<rparr>)) = []
   \<and> showResult (calculateResult sample (init\<lparr>display := js ''50+''\<rparr>)) = False"
proof -
  have d: "display (init\<lparr>display := js ''50+''\<rparr>) \<noteq> []"
    by (simp add: js_def)
  have e: "evaluate sample (display (init\<lparr>display := js ''50+''\<rparr>)) = None"
    by (simp add: sample_def sums_def js_def)
  show ?thesis
    using calculateResult_failure [OF d e] by (simp add: init_def)
qed

section \<open>Key presses\<close>

text \<open>
  C5. For a binary-operator key the display grows by the operator exactly when it is
  not empty and its last code unit is not an operator; in every other state the press
  leaves the display as it is. The history is unchanged either way, and so the press
  is ignored without any error.
\<close>

theorem handleButton_operator:
  assumes "isOperator v"
  shows "display (handleButton h v st) =
           (if display st \<noteq> [] \<and> \<not> isOperator [last (display st)]
            then display st @ v else display st)
       \<and> display (step h (KeyClick v) st) = display (handleButton h v st)
       \<and> history (handleButton h v st) = history st"
proof -
  note nc = isOperator_not_command [OF assms]
  have "handleButton h v st =
          (if display st = [] \<or> isOperator (slice_last (display st))
           then st\<lparr>showResult := False\<rparr>
           else st\<lparr>showResult := False, display := display st @ v\<rparr>)"
    unfolding handleButton_def Let_def using nc assms by simp
  then show ?thesis
    by (auto simp: slice_last_nonempty)
qed

theorem handleButton_operator_witness:
  "isOperator (js ''+'')
   \<and> display (handleButton sample (js ''+'') (init\<lparr>display := js ''50''\<rparr>)) = js ''50+''
   \<and> display (handleButton sample (js ''+'') (init\<lparr>display := js ''50+''\<rparr>)) = js ''50+''
   \<and> display (handleButton sample (js ''+'') init) = []"
proof -
  have o: "isOperator (js ''+'')"
    by (simp add: isOperator_def)
  show ?thesis
    using o handleButton_operator [OF o, of sample "init\<lparr>display := js ''50''\<rparr>"]
      handleButton_operator [OF o, of sample "init\<lparr>display := js ''50+''\<rparr>"]
      handleButton_operator [OF o, of sample init]
    by (simp add: init_def isOperator_def js_def)
qed

lemma showResult_calculateResult:
  "showResult (calculateResult h st) =
     (if display st \<noteq> [] \<and> rounded h (display st) \<noteq> None then True else showResult st)"
  by (simp add: calculateResult_rounded split: option.splits)

lemma history_calculateResult:
  "history (calculateResult h st) =
     (if display st = [] then history st
      else case rounded h (display st) of
             None \<Rightarrow> history st
           | Some n \<Rightarrow> history st @ [display st @ js '' = '' @ toString h n])"
  by (simp add: calculateResult_rounded split: option.splits)

lemma handleButton_other:
  assumes "v \<noteq> js ''=''"
  shows "showResult (handleButton h v st) = False"
    and "history (handleButton h v st) = history st"
    and "partialResult (handleButton h v st) = partialResult st"
  using assms
  by (simp_all add: handleButton_def Let_def if_distrib [of showResult] if_distrib [of history]
       if_distrib [of partialResult] split del: if_split cong: if_cong)

lemma partialResult_calculateResult [simp]:
  "partialResult (calculateResult h st) = partialResult st"
  by (simp add: calculateResult_rounded split: option.splits)

lemma partialResult_handleButton [simp]:
  "partialResult (handleButton h v st) = partialResult st"
  by (cases "v = js ''=''") (simp_all add: handleButton_equals handleButton_other)

lemma partialResult_handleHistoryClick [simp]:
  "partialResult (handleHistoryClick item st) = partialResult st"
  by (simp add: handleHistoryClick_def Let_def)

section \<open>The display mode\<close>

text \<open>
  C4, as amended. Every call of \<open>handleButton\<close> starts by resetting \<open>showResult\<close>.
  After a key press the component is in editing mode for every key but \<open>=\<close>; after
  \<open>=\<close> it shows a result exactly when the display was not empty and its evaluation
  and rounding went through. This holds from every state, the result mode included.
\<close>

theorem handleButton_showResult:
  "showResult (step h (KeyClick v) st) =
     (v = js ''='' \<and> display st \<noteq> [] \<and> rounded h (display st) \<noteq> None)"
proof (cases "v = js ''=''")
  case True
  then show ?thesis
    by (simp add: handleButton_equals showResult_calculateResult)
next
  case False
  then show ?thesis
    by (simp add: handleButton_other)
qed

theorem handleButton_showResult_witness:
  "showResult (step sample (KeyClick (js ''5'')) (init\<lparr>showResult := True, display := js ''52''\<rparr>))
     = False"
  using handleButton_showResult
    [of sample "js ''5''" "init\<lparr>showResult := True, display := js ''52''\<rparr>"]
  by (simp add: js_def)

text \<open>
  The claim as it was stated fails at the key \<open>=\<close>: after the presses 5, 0, +, 2, =
  the component shows the result 52, and one more press of \<open>=\<close> evaluates 52 and
  shows a result again.
\<close>

theorem equals_in_result_mode_counterexample:
  "showResult (run sample (map KeyClick [js ''5'', js ''0'', js ''+'', js ''2'', js ''='']) init)
   \<and> showResult (step sample (KeyClick (js ''=''))
        (run sample (map KeyClick [js ''5'', js ''0'', js ''+'', js ''2'', js ''='']) init))"
  by (simp add: run_defs)

section \<open>The history\<close>

text \<open>
  C8. Every event, a click on any key or on any history item, leaves the history as
  it is or extends it by one record at its end.
\<close>

theorem history_append_only:
  "history (step h e st) = history st \<or> (\<exists>r. history (step h e st) = history st @ [r])"
proof (cases e)
  case (KeyClick v)
  show ?thesis
  proof (cases "v = js ''=''")
    case True
    with KeyClick show ?thesis
      by (simp add: handleButton_equals history_calculateResult split: option.splits)
  next
    case False
    with KeyClick show ?thesis
      by (simp add: handleButton_other)
  qed
next
  case (HistoryClick item)
  then show ?thesis
    by (simp add: handleHistoryClick_def Let_def)
qed

theorem history_append_only_witness:
  "history (step sample (KeyClick (js ''='')) (init\<lparr>display := js ''50+2''\<rparr>))
     = history (init\<lparr>display := js ''50+2''\<rparr>) @ [js ''50+2 = 52'']
   \<and> history (step sample (KeyClick (js ''AC'')) (init\<lparr>history := [js ''50+2 = 52'']\<rparr>))
     = [js ''50+2 = 52'']"
proof -
  have a: "history (step sample (KeyClick (js ''='')) (init\<lparr>display := js ''50+2''\<rparr>))
             = [js ''50+2 = 52'']"
    by (simp add: run_defs)
  have b: "history (step sample (KeyClick (js ''AC'')) (init\<lparr>history := [js ''50+2 = 52'']\<rparr>))
             \<noteq> [js ''50+2 = 52''] @ [r]" for r
    by (simp add: handleButton_def init_def js_def)
  show ?thesis
    using history_append_only
      [of sample "KeyClick (js ''AC'')" "init\<lparr>history := [js ''50+2 = 52'']\<rparr>"] a b
    by (auto simp: init_def)
qed

lemma display_step_appending:
  assumes "v \<noteq> js ''AC''" and "v \<noteq> js ''C''" and "v \<noteq> js ''=''"
  shows "display (step h (KeyClick v) st) =
           (if rejected (display st) v then display st else display st @ appended v)"
  using assms by (simp add: handleButton_appending)

section \<open>Sequences of key presses\<close>

text \<open>
  C7, as amended. Over a sequence of key presses that holds none of \<open>=\<close>, \<open>AC\<close>
  and \<open>C\<close>, from any state, the display is the display before followed by the
  texts of the accepted keys in order, the rejected keys (a leading operator, a
  consecutive operator, a repeated decimal point) left out. From the initial state
  that is the concatenation of the accepted texts.
\<close>

theorem display_accepted_concat:
  assumes "js ''='' \<notin> set vs" and "js ''AC'' \<notin> set vs" and "js ''C'' \<notin> set vs"
  shows "display (run h (map KeyClick vs) st) = accepted_concat (display st) vs"
  using assms
proof (induction vs arbitrary: st)
  case Nil
  show ?case by simp
next
  case (Cons v vs)
  from Cons.prems have v: "v \<noteq> js ''AC''" "v \<noteq> js ''C''" "v \<noteq> js ''=''"
    and vs: "js ''='' \<notin> set vs" "js ''AC'' \<notin> set vs" "js ''C'' \<notin> set vs"
    by auto
  have "display (run h (map KeyClick (v # vs)) st)
          = accepted_concat (display (step h (KeyClick v) st)) vs"
    using Cons.IH [OF vs] by simp
  also have "\<dots> = accepted_concat (display st) (v # vs)"
    by (simp only: display_step_appending [OF v] accepted_concat.simps)
  finally show ?case .
qed

theorem display_accepted_concat_witness:
  "display (run sample (map KeyClick
       [js ''+'', js ''5'', js ''+'', js ''*'', js ''.'', js ''.'', js ''2'', js ''-'', radic, js ''9'', js '')''])
       init)
     = js ''5+.2-sqrt(9)''"
proof -
  have a: "js ''='' \<notin> set [js ''+'', js ''5'', js ''+'', js ''*'', js ''.'', js ''.'', js ''2'', js ''-'', radic, js ''9'', js '')'']"
    by (simp add: js_def radic_def)
  have b: "js ''AC'' \<notin> set [js ''+'', js ''5'', js ''+'', js ''*'', js ''.'', js ''.'', js ''2'', js ''-'', radic, js ''9'', js '')'']"
    by (simp add: js_def radic_def)
  have c: "js ''C'' \<notin> set [js ''+'', js ''5'', js ''+'', js ''*'', js ''.'', js ''.'', js ''2'', js ''-'', radic, js ''9'', js '')'']"
    by (simp add: js_def radic_def)
  show ?thesis
    unfolding display_accepted_concat [OF a b c]
    by (simp add: rejected_def appended_def isOperator_def init_def radic_def js_def)
qed

text \<open>
  The claim as it was stated covers every sequence without \<open>=\<close>, and so the keys
  \<open>AC\<close> and \<open>C\<close>: after the presses 1, C the display is empty, while the
  concatenation of the accepted keys is not, whether \<open>C\<close> is counted among them or
  left out.
\<close>

theorem clear_key_counterexample:
  "js ''='' \<notin> set [js ''1'', js ''C'']
   \<and> display (run sample (map KeyClick [js ''1'', js ''C'']) init) = []
   \<and> accepted_concat (display init) [js ''1'', js ''C''] = js ''1C''
   \<and> accepted_concat (display init) [js ''1''] = js ''1''"
  by (simp add: run_defs rejected_def appended_def)

section \<open>The partial result\<close>

lemma partialEffect_rounded:
  "partialEffect h st =
     st\<lparr>partialResult :=
          (if display st = [] \<or> showResult st then []
           else case rounded h (display st) of None \<Rightarrow> [] | Some n \<Rightarrow> toString h n)\<rparr>"
  by (simp add: partialEffect_def rounded_def Let_def split: option.splits)

lemma partialEffect_fixed:
  "partialEffect h st = st \<longleftrightarrow>
     partialResult st =
       (if display st = [] \<or> showResult st then []
        else case rounded h (display st) of None \<Rightarrow> [] | Some n \<Rightarrow> toString h n)"
proof -
  have "st\<lparr>partialResult := p\<rparr> = st \<longleftrightarrow> partialResult st = p" for p
    by (cases st) auto
  then show ?thesis
    by (simp only: partialEffect_rounded)
qed

lemma partialEffect_idem: "partialEffect h (partialEffect h st) = partialEffect h st"
proof -
  have "partialEffect h (st\<lparr>partialResult := p\<rparr>) = partialEffect h st" for p
    by (simp add: partialEffect_rounded)
  then show ?thesis
    by (subst (2) partialEffect_rounded) simp
qed

lemma rerender_fixed:
  assumes "partialEffect h old = old" and "partialResult new = partialResult old"
  shows "partialEffect h (rerender h old new) = rerender h old new"
proof (cases "(display new, showResult new) = (display old, showResult old)")
  case True
  let ?F = "\<lambda>s. if display s = [] \<or> showResult s then []
                 else case rounded h (display s) of None \<Rightarrow> [] | Some n \<Rightarrow> toString h n"
  from True have d: "display new = display old" "showResult new = showResult old"
    by auto
  from assms(1) have "partialResult old = ?F old"
    by (simp only: partialEffect_fixed)
  with d assms(2) have "partialResult new = ?F new"
    by simp
  then have "partialEffect h new = new"
    by (simp only: partialEffect_fixed)
  with True show ?thesis
    by (simp add: rerender_def)
next
  case False
  show ?thesis
    unfolding rerender_def by (simp only: False if_False partialEffect_idem)
qed

lemma reachable_partial_fixed: "reachable h ks st \<Longrightarrow> partialEffect h st = st"
proof (induction rule: reachable.induct)
  case reach_init
  show ?case by (simp add: partialEffect_def init_def)
next
  case (reach_key st v)
  then show ?case by (simp add: rerender_fixed)
next
  case (reach_history st item)
  then show ?case by (simp add: rerender_fixed)
qed

text \<open>
  C6. In every state that the component reaches, the partial result is empty when a
  result is shown or the display is empty. Otherwise it is the string of
  \<open>parseFloat(evaluate(display).toFixed(3))\<close> when \<open>evaluate\<close> returns a number,
  and it is empty when \<open>evaluate\<close> throws (or when what it returns cannot be
  rounded): the failure changes nothing else. After the keys 5, 0, + the partial
  result is empty, after 5, 0, +, 2 it is 52.
\<close>

theorem partialResult_reachable:
  assumes "reachable h ks st"
  shows "(showResult st \<or> display st = [] \<longrightarrow> partialResult st = [])
       \<and> (\<not> showResult st \<and> display st \<noteq> [] \<longrightarrow>
            (\<forall>r s. evaluate h (display st) = Some r \<and> toFixed h r 3 = Some s \<longrightarrow>
               partialResult st = toString h (parseFloat h s))
          \<and> (evaluate h (display st) = None \<longrightarrow> partialResult st = [])
          \<and> (\<forall>r. evaluate h (display st) = Some r \<and> toFixed h r 3 = None \<longrightarrow>
               partialResult st = []))"
  using reachable_partial_fixed [OF assms]
  by (auto simp: partialEffect_fixed rounded_def split: option.splits)

theorem partialResult_reachable_witness:
  "partialResult (run sample (map KeyClick [js ''5'', js ''0'', js ''+'']) init) = []
   \<and> partialResult (run sample (map KeyClick [js ''5'', js ''0'', js ''+'', js ''2'']) init) = js ''52''
   \<and> partialResult (run sample (map KeyClick [js ''5'', js ''0'', js ''+'', js ''2'', js ''='']) init) = []"
proof -
  let ?a = "run sample (map KeyClick [js ''5'', js ''0'', js ''+'']) init"
  let ?b = "run sample (map KeyClick [js ''5'', js ''0'', js ''+'', js ''2'']) init"
  let ?c = "run sample (map KeyClick [js ''5'', js ''0'', js ''+'', js ''2'', js ''='']) init"
  have sa: "showResult ?a = False \<and> display ?a = js ''50+''"
    by (simp add: run_defs)
  have sb: "showResult ?b = False \<and> display ?b = js ''50+2''"
    by (simp add: run_defs)
  have sc: "showResult ?c = True"
    by (simp add: run_defs)
  have ea: "evaluate sample (js ''50+'') = None"
    by (simp add: sample_def sums_def js_def)
  have eb: "evaluate sample (js ''50+2'') = Some 52 \<and> toFixed sample 52 3 = Some (js ''52.000'')
      \<and> toString sample (parseFloat sample (js ''52.000'')) = js ''52''"
    by (simp add: run_defs)
  have ne: "js ''50+'' \<noteq> [] \<and> js ''50+2'' \<noteq> []"
    by (simp add: js_def)
  have ra: "reachable sample keys ?a"
    by (rule reachable_run [OF reach_init]) (simp add: keys_def)
  have rb: "reachable sample keys ?b"
    by (rule reachable_run [OF reach_init]) (simp add: keys_def)
  have rc: "reachable sample keys ?c"
    by (rule reachable_run [OF reach_init]) (simp add: keys_def)
  show ?thesis
    using partialResult_reachable [OF ra] partialResult_reachable [OF rb]
      partialResult_reachable [OF rc] sa sb sc ea eb ne
    by simp
qed

section \<open>After a failed finalisation\<close>

lemma not_rejected_Error: "\<not> rejected (js ''Error'') v"
  by (simp add: rejected_def isOperator_def js_def)

text \<open>
  C10. After a finalisation that failed the display is the string \<open>Error\<close>, and it
  stays the prefix of what is typed next: every key other than \<open>AC\<close>, \<open>C\<close> and
  \<open>=\<close> is accepted and appends its text to it (the digit 5 gives \<open>Error5\<close>; an
  operator or a decimal point is not rejected, since \<open>Error\<close> ends in a letter), and
  \<open>=\<close> leaves \<open>Error\<close> in place when the evaluation of \<open>Error\<close> fails, as it
  does in mathjs, where it is an undefined symbol. \<open>AC\<close> empties the display,
  \<open>C\<close> cuts its last letter, and a click on a history item replaces it.
\<close>

theorem error_sticks:
  assumes "display st \<noteq> []" and "rounded h (display st) = None"
  shows "display (step h (KeyClick (js ''='')) st) = js ''Error''
       \<and> (\<forall>v. v \<noteq> js ''AC'' \<and> v \<noteq> js ''C'' \<and> v \<noteq> js ''='' \<longrightarrow>
            display (step h (KeyClick v) (step h (KeyClick (js ''='')) st))
              = js ''Error'' @ appended v)
       \<and> display (step h (KeyClick (js ''5'')) (step h (KeyClick (js ''='')) st)) = js ''Error5''
       \<and> (rounded h (js ''Error'') = None \<longrightarrow>
            display (step h (KeyClick (js ''='')) (step h (KeyClick (js ''='')) st)) = js ''Error'')
       \<and> display (step h (KeyClick (js ''AC'')) (step h (KeyClick (js ''='')) st)) = []
       \<and> display (step h (KeyClick (js ''C'')) (step h (KeyClick (js ''='')) st)) = js ''Erro''
       \<and> display (step h (HistoryClick item) (step h (KeyClick (js ''='')) st))
            = split_head (js '' = '') item"
proof -
  let ?e = "step h (KeyClick (js ''='')) st"
  have e: "display ?e = js ''Error''"
    using assms by (simp add: handleButton_equals calculateResult_rounded)
  have ne: "js ''Error'' \<noteq> []"
    by (simp add: js_def)
  have app: "display (step h (KeyClick v) ?e) = js ''Error'' @ appended v"
    if "v \<noteq> js ''AC''" "v \<noteq> js ''C''" "v \<noteq> js ''=''" for v
    by (simp only: display_step_appending [OF that] e not_rejected_Error if_False)
  have five: "display (step h (KeyClick (js ''5'')) ?e) = js ''Error5''"
  proof -
    have "js ''5'' \<noteq> js ''AC''" "js ''5'' \<noteq> js ''C''" "js ''5'' \<noteq> js ''=''"
      by (simp_all add: js_def)
    from app [OF this] show ?thesis
      by (simp add: appended_def js_def radic_def)
  qed
  have again: "display (step h (KeyClick (js ''='')) ?e) = js ''Error''"
    if "rounded h (js ''Error'') = None"
    using that e ne by (simp add: handleButton_equals calculateResult_rounded)
  have ac: "display (step h (KeyClick (js ''AC'')) ?e) = []"
    by (simp add: handleButton_AC)
  have c: "display (step h (KeyClick (js ''C'')) ?e) = js ''Erro''"
  proof -
    have "display (step h (KeyClick (js ''C'')) ?e) = slice_init (display ?e)"
      by (simp add: handleButton_C)
    also have "\<dots> = js ''Erro''"
      unfolding e by (simp add: slice_init_def js_def)
    finally show ?thesis .
  qed
  have hc: "display (step h (HistoryClick item) ?e) = split_head (js '' = '') item"
    by (simp add: handleHistoryClick_def Let_def)
  from e app five again ac c hc show ?thesis
    by blast
qed

theorem error_sticks_witness:
  "display (step sample (KeyClick (js ''='')) (init\<lparr>display := js ''50+''\<rparr>)) = js ''Error''
   \<and> display (step sample (KeyClick (js ''+''))
        (step sample (KeyClick (js ''='')) (init\<lparr>display := js ''50+''\<rparr>))) = js ''Error+''
   \<and> display (step sample (KeyClick (js ''5''))
        (step sample (KeyClick (js ''='')) (init\<lparr>display := js ''50+''\<rparr>))) = js ''Error5''
   \<and> display (step sample (KeyClick (js ''=''))
        (step sample (KeyClick (js ''='')) (init\<lparr>display := js ''50+''\<rparr>))) = js ''Error''"
proof -
  have d: "display (init\<lparr>display := js ''50+''\<rparr>) \<noteq> []"
    by (simp add: js_def)
  have r: "rounded sample (display (init\<lparr>display := js ''50+''\<rparr>)) = None"
    by (simp add: rounded_def sample_def sums_def js_def)
  have r': "rounded sample (js ''Error'') = None"
    by (simp add: rounded_def sample_def sums_def js_def)
  have p: "js ''+'' \<noteq> js ''AC'' \<and> js ''+'' \<noteq> js ''C'' \<and> js ''+'' \<noteq> js ''=''"
    by (simp add: js_def)
  have a: "js ''Error'' @ appended (js ''+'') = js ''Error+''"
    by (simp add: appended_def js_def radic_def)
  from error_sticks [OF d r] p r' a show ?thesis
    by metis
qed

section \<open>Finalisation and history selection\<close>

lemma split_head_before:
  assumes "sp \<notin> set d"
  shows "split_head (sp # rest) (d @ (sp # rest) @ r) = d"
  using assms
proof (induction d)
  case Nil
  show ?case by simp
next
  case (Cons c cs)
  then have "c \<noteq> sp" by auto
  then have "take (length (sp # rest)) ((c # cs) @ (sp # rest) @ r) \<noteq> sp # rest"
    by simp
  with Cons show ?case by simp
qed

lemma split_head_record:
  assumes "32 \<notin> set d"
  shows "split_head (js '' = '') (d @ js '' = '' @ r) = d"
proof -
  have "js '' = '' = 32 # js ''= ''"
    by (simp add: js_def)
  with split_head_before [OF assms, of "js ''= ''" r] show ?thesis
    by simp
qed

lemma split_head_prefix: "prefix (split_head sep (d @ sep @ r)) d"
proof (induction d)
  case Nil
  have "split_head sep (sep @ r) = []"
  proof (cases "sep @ r")
    case Nil
    then show ?thesis by simp
  next
    case (Cons a as)
    have "take (length sep) (sep @ r) = sep" by simp
    with Cons show ?thesis by simp
  qed
  then show ?case by simp
next
  case (Cons c cs)
  then show ?case by simp
qed

lemma set_slice_init: "set (slice_init d) \<subseteq> set d"
  by (cases d) (auto simp: slice_init_def dest: in_set_butlastD)

lemma slice_init_butlast: "slice_init d = butlast d"
  by (cases d) (simp_all add: slice_init_def)

lemma prefix_slice_init: "prefix (slice_init d) d"
  by (simp add: slice_init_butlast prefixeq_butlast)

lemma set_appended:
  assumes "32 \<notin> set v"
  shows "32 \<notin> set (appended v)"
  using assms by (auto simp: appended_def js_def)

text \<open>No reachable display holds a space, and every history item gives back one such.\<close>

lemma reachable_spaceless:
  assumes keys: "\<forall>k\<in>set ks. 32 \<notin> set k"
    and host: "\<forall>d n. rounded h d = Some n \<longrightarrow> 32 \<notin> set (toString h n)"
    and "reachable h ks st"
  shows "32 \<notin> set (display st)
       \<and> (\<forall>item\<in>set (history st). 32 \<notin> set (split_head (js '' = '') item))"
  using assms(3)
proof (induction rule: reachable.induct)
  case reach_init
  show ?case by (simp add: init_def)
next
  case (reach_key st v)
  then have d: "32 \<notin> set (display st)"
    and H: "\<forall>item\<in>set (history st). 32 \<notin> set (split_head (js '' = '') item)"
    and v: "32 \<notin> set v"
    using keys by auto
  consider (ac) "v = js ''AC''" | (c) "v = js ''C''" | (eq) "v = js ''=''"
    | (app) "v \<noteq> js ''AC''" "v \<noteq> js ''C''" "v \<noteq> js ''=''"
    by blast
  then show ?case
  proof cases
    case ac
    with H show ?thesis by (simp add: handleButton_AC)
  next
    case c
    with H d set_slice_init [of "display st"] show ?thesis
      by (auto simp: handleButton_C)
  next
    case eq
    show ?thesis
    proof (cases "display st = []")
      case True
      with eq d H show ?thesis
        by (simp add: handleButton_equals calculateResult_rounded)
    next
      case False
      show ?thesis
      proof (cases "rounded h (display st)")
        case None
        have "32 \<notin> set (js ''Error'')"
          by (simp add: js_def)
        with eq False None H show ?thesis
          by (simp add: handleButton_equals calculateResult_rounded)
      next
        case (Some n)
        with host have "32 \<notin> set (toString h n)" by blast
        with eq False Some H d show ?thesis
          by (simp add: handleButton_equals calculateResult_rounded split_head_record)
      qed
    qed
  next
    case app
    from set_appended [OF v] d H show ?thesis
      by (simp add: handleButton_appending [OF app])
  qed
next
  case (reach_history st item)
  then show ?case
    by (simp add: handleHistoryClick_def Let_def)
qed

text \<open>
  C9. In a reachable state with a non-empty display whose finalisation succeeds, the
  key \<open>=\<close> appends the record \<open>display = result\<close> as one string, and a click on
  that record, from whatever state \<open>st'\<close> the component is in by then, puts back
  exactly the display that was finalised. The split at the first \<open>" = "\<close> finds the
  right place because no reachable display holds a space: no key label has one, and
  no number prints with one.
\<close>

theorem history_roundtrip:
  assumes keys: "\<forall>k\<in>set ks. 32 \<notin> set k"
    and host: "\<forall>d n. rounded h d = Some n \<longrightarrow> 32 \<notin> set (toString h n)"
    and reach: "reachable h ks st"
    and nonempty: "display st \<noteq> []"
    and success: "rounded h (display st) = Some n"
  shows "history (step h (KeyClick (js ''='')) st)
           = history st @ [display st @ js '' = '' @ toString h n]
       \<and> display (step h (HistoryClick (last (history (step h (KeyClick (js ''='')) st)))) st')
           = display st"
proof -
  have h: "history (step h (KeyClick (js ''='')) st)
             = history st @ [display st @ js '' = '' @ toString h n]"
    using nonempty success by (simp add: handleButton_equals calculateResult_rounded)
  from reachable_spaceless [OF keys host reach] have "32 \<notin> set (display st)"
    by simp
  then have "split_head (js '' = '') (display st @ js '' = '' @ toString h n) = display st"
    by (rule split_head_record)
  with h show ?thesis
    by (simp add: handleHistoryClick_def Let_def)
qed

text \<open>The sample host prints digits and a sign only.\<close>

lemma digit_unit:
  assumes "m < 10"
  shows "(of_nat (48 + m) :: unit16) \<in> set [48, 49, 50, 51, 52, 53, 54, 55, 56, 57]"
proof -
  from assms have "m \<in> {0, 1, 2, 3, 4, 5, 6, 7, 8, 9}"
    by auto
  then show ?thesis
    by auto
qed

lemma showNat_units: "set (showNat n) \<subseteq> set [48, 49, 50, 51, 52, 53, 54, 55, 56, 57]"
proof (induction n rule: showNat.induct)
  case (1 n)
  show ?case
  proof (cases "n < 10")
    case True
    with digit_unit [OF True] show ?thesis
      by (subst showNat.simps) simp
  next
    case False
    have "n mod 10 < 10" by simp
    from digit_unit [OF this] 1 [OF False] False show ?thesis
      by (subst showNat.simps) simp
  qed
qed

lemma showInt_units: "set (showInt i) \<subseteq> set [45, 48, 49, 50, 51, 52, 53, 54, 55, 56, 57]"
  using showNat_units [of "nat i"] showNat_units [of "nat (- i)"]
  by (auto simp: showInt_def js_def)

lemma sample_spaceless: "\<forall>d n. rounded sample d = Some n \<longrightarrow> 32 \<notin> set (toString sample n)"
proof (intro allI impI)
  fix d :: jsstring and n :: int
  have "toString sample n = showInt n"
    by (simp add: sample_def)
  with showInt_units [of n] show "32 \<notin> set (toString sample n)"
    by auto
qed

lemma keys_spaceless: "\<forall>k\<in>set keys. 32 \<notin> set k"
  by (simp add: keys_def js_def radic_def)

theorem history_roundtrip_witness:
  "reachable sample keys
     \<lparr>showResult = False, display = js ''50+2'', history = [], partialResult = js ''52''\<rparr>
   \<and> history (step sample (KeyClick (js ''=''))
        \<lparr>showResult = False, display = js ''50+2'', history = [], partialResult = js ''52''\<rparr>)
       = [js ''50+2 = 52'']
   \<and> display (step sample (HistoryClick (js ''50+2 = 52'')) init) = js ''50+2''"
proof -
  let ?S = "\<lparr>showResult = False, display = js ''50+2'', history = [],
             partialResult = js ''52''\<rparr>"
  have s: "run sample (map KeyClick [js ''5'', js ''0'', js ''+'', js ''2'']) init = ?S"
    by (simp add: run_defs)
  have "reachable sample keys (run sample (map KeyClick [js ''5'', js ''0'', js ''+'', js ''2'']) init)"
    by (rule reachable_run [OF reach_init]) (simp add: keys_def)
  then have r: "reachable sample keys ?S"
    by (simp only: s)
  have d: "display ?S \<noteq> []"
    by (simp add: js_def)
  have n: "rounded sample (display ?S) = Some 52"
    by (simp add: rounded_def run_defs)
  note rt = history_roundtrip [OF keys_spaceless sample_spaceless r d n, of init]
  have hs: "history ?S @ [display ?S @ js '' = '' @ toString sample 52] = [js ''50+2 = 52'']"
    by (simp add: run_defs)
  from rt have a: "history (step sample (KeyClick (js ''='')) ?S) = [js ''50+2 = 52'']"
    by (simp only: hs)
  from rt have "display (step sample (HistoryClick (last (history (step sample (KeyClick (js ''='')) ?S)))) init)
      = display ?S"
    by (rule conjunct2)
  then have b: "display (step sample (HistoryClick (js ''50+2 = 52'')) init) = js ''50+2''"
    unfolding a by simp
  from r a b show ?thesis
    by (intro conjI)
qed

section \<open>The shape of the expression\<close>

lemma adjacent_Cons: "adjacent P (a # ys) \<longleftrightarrow> (ys \<noteq> [] \<and> P a \<and> P (hd ys)) \<or> adjacent P ys"
  by (cases ys) auto

lemma adjacent_append:
  "adjacent P (xs @ ys) \<longleftrightarrow>
     adjacent P xs \<or> adjacent P ys \<or> (xs \<noteq> [] \<and> ys \<noteq> [] \<and> P (last xs) \<and> P (hd ys))"
proof (induction xs)
  case Nil
  show ?case by simp
next
  case (Cons a xs)
  show ?case
  proof (cases xs)
    case Nil
    then show ?thesis by (auto simp: adjacent_Cons)
  next
    case (Cons b bs)
    with Cons.IH show ?thesis by auto
  qed
qed

lemma adjacent_none: "\<forall>c\<in>set xs. \<not> P c \<Longrightarrow> \<not> adjacent P xs"
  by (induction P xs rule: adjacent.induct) auto

lemma starts_with_operator_append:
  "starts_with_operator (xs @ ys) =
     (if xs = [] then starts_with_operator ys else starts_with_operator xs)"
  by (cases xs) (simp_all add: starts_with_operator_def)

lemma result_led_hd: "hd s = hd t \<Longrightarrow> result_led H s = result_led H t"
  by (simp add: result_led_def)

lemma result_led_mono: "set H \<subseteq> set H' \<Longrightarrow> result_led H s \<Longrightarrow> result_led H' s"
  unfolding result_led_def by blast

lemma tidy_Nil: "tidy H []"
  by (simp add: tidy_def adjacent_ops_def adjacent_dots_def starts_with_operator_def)

lemma tidy_mono: "set H \<subseteq> set H' \<Longrightarrow> tidy H s \<Longrightarrow> tidy H' s"
  unfolding tidy_def using result_led_mono by blast

lemma tidy_prefix:
  assumes "prefix p s" and "tidy H s"
  shows "tidy H p"
proof (cases "p = []")
  case True
  then show ?thesis by (simp add: tidy_Nil)
next
  case False
  from assms(1) obtain q where s: "s = p @ q"
    by (auto simp: prefix_def)
  from False have "hd s = hd p" "starts_with_operator s = starts_with_operator p"
    by (simp_all add: s starts_with_operator_append)
  with assms(2) result_led_hd [of s p H] show ?thesis
    by (auto simp: tidy_def adjacent_ops_def adjacent_dots_def s adjacent_append)
qed

lemma plain_units:
  assumes "plain t"
  shows "\<forall>c\<in>set t. \<not> isOperator [c]" and "\<forall>c\<in>set t. [c] \<noteq> js ''.''"
  using assms by (simp_all add: plain_def list_all_iff)

lemma plain_shape:
  assumes "plain t"
  shows "\<not> adjacent_ops t" and "\<not> adjacent_dots t" and "\<not> starts_with_operator t"
    and "t \<noteq> [] \<Longrightarrow> \<not> isOperator [hd t]" and "t \<noteq> [] \<Longrightarrow> [hd t] \<noteq> js ''.''"
proof -
  note u = plain_units [OF assms]
  show "\<not> adjacent_ops t"
    unfolding adjacent_ops_def by (rule adjacent_none) (rule u(1))
  show "\<not> adjacent_dots t"
    unfolding adjacent_dots_def by (rule adjacent_none) (rule u(2))
  show "\<not> starts_with_operator t"
    using u(1) by (cases t) (simp_all add: starts_with_operator_def)
  show "t \<noteq> [] \<Longrightarrow> \<not> isOperator [hd t]"
    using u(1) by (cases t) simp_all
  show "t \<noteq> [] \<Longrightarrow> [hd t] \<noteq> js ''.''"
    using u(2) by (cases t) simp_all
qed

lemma tidy_plain:
  assumes "tidy H s" and "plain t"
  shows "tidy H (s @ t)"
proof (cases "s = []")
  case True
  with plain_shape(1-3) [OF assms(2)] show ?thesis
    by (simp add: tidy_def)
next
  case False
  then have "hd (s @ t) = hd s" by simp
  from result_led_hd [OF this, of H] assms(1) False plain_shape [OF assms(2)] show ?thesis
    by (auto simp: tidy_def adjacent_ops_def adjacent_dots_def adjacent_append
        starts_with_operator_append)
qed

lemma isOperator_unit: "isOperator v \<Longrightarrow> \<exists>c. v = [c]"
  by (auto simp: isOperator_def js_def)

lemma operator_not_dot: "isOperator v \<Longrightarrow> v \<noteq> js ''.''"
  by (auto simp: isOperator_def js_def)

lemma tidy_operator:
  assumes "tidy H s" and "isOperator v" and "s \<noteq> []" and "\<not> isOperator [last s]"
  shows "tidy H (s @ v)"
proof -
  from isOperator_unit [OF assms(2)] obtain c where v: "v = [c]" ..
  from assms(3) have "hd (s @ v) = hd s" by simp
  from result_led_hd [OF this, of H] assms operator_not_dot [OF assms(2)] show ?thesis
    by (auto simp: v tidy_def adjacent_ops_def adjacent_dots_def adjacent_append
        starts_with_operator_append)
qed

lemma tidy_dot:
  assumes "tidy H s" and "\<not> (s \<noteq> [] \<and> [last s] = js ''.'')"
  shows "tidy H (s @ js ''.'')"
proof -
  have d: "js ''.'' = [46]" "\<not> isOperator [46]"
    by (simp_all add: js_def isOperator_def)
  show ?thesis
  proof (cases "s = []")
    case True
    then show ?thesis
      by (simp add: d tidy_def adjacent_ops_def adjacent_dots_def starts_with_operator_def)
  next
    case False
    then have "hd (s @ js ''.'') = hd s" by simp
    from result_led_hd [OF this, of H] assms False show ?thesis
      by (auto simp: d tidy_def adjacent_ops_def adjacent_dots_def adjacent_append
          starts_with_operator_append)
  qed
qed

lemma plain_appended:
  assumes "plain v"
  shows "plain (appended v)"
proof -
  have "plain (js ''sqrt('')" "plain (js ''('')"
    by (simp_all add: plain_def isOperator_def js_def)
  with assms show ?thesis
    by (auto simp: appended_def plain_def)
qed

lemma tidy_accept:
  assumes "tidy H s" and "\<not> rejected s v" and "isOperator v \<or> v = js ''.'' \<or> plain v"
  shows "tidy H (s @ appended v)"
proof -
  consider (oper) "isOperator v" | (dot) "v = js ''.''" | (other) "plain v"
    using assms(3) by blast
  then show ?thesis
  proof cases
    case oper
    then have a: "appended v = v"
      by (auto simp: appended_def isOperator_def radic_def js_def)
    from oper assms(2) have "s \<noteq> []" "\<not> isOperator [last s]"
      by (simp_all add: rejected_def)
    with tidy_operator [OF assms(1) oper] show ?thesis
      by (simp add: a)
  next
    case dot
    then have a: "appended v = js ''.''"
      by (simp add: appended_def radic_def js_def)
    from dot assms(2) have "\<not> (s \<noteq> [] \<and> [last s] = js ''.'')"
      by (simp add: rejected_def isOperator_def js_def)
    with tidy_dot [OF assms(1)] show ?thesis
      by (simp add: a)
  next
    case other
    from tidy_plain [OF assms(1) plain_appended [OF other]] show ?thesis .
  qed
qed

lemma tidy_Error: "tidy H (js ''Error'')"
proof -
  have "plain (js ''Error'')"
    by (simp add: plain_def isOperator_def js_def)
  from tidy_plain [OF tidy_Nil this] show ?thesis by simp
qed

text \<open>
  The invariant: the display is tidy, and every history item is a record whose
  expression is tidy.
\<close>

lemma reachable_tidy:
  assumes keys: "\<forall>k\<in>set ks. isOperator k \<or> k = js ''.'' \<or> plain k"
    and host: "\<forall>d n. rounded h d = Some n \<longrightarrow>
                 \<not> adjacent_ops (toString h n) \<and> \<not> adjacent_dots (toString h n)"
    and "reachable h ks st"
  shows "tidy (history st) (display st)
       \<and> (\<forall>item\<in>set (history st). \<exists>d r. item = d @ js '' = '' @ r \<and> tidy (history st) d)"
  using assms(3)
proof (induction rule: reachable.induct)
  case reach_init
  show ?case by (simp add: init_def tidy_Nil)
next
  case (reach_key st v)
  then have d: "tidy (history st) (display st)"
    and H: "\<forall>item\<in>set (history st). \<exists>d r. item = d @ js '' = '' @ r \<and> tidy (history st) d"
    and v: "isOperator v \<or> v = js ''.'' \<or> plain v"
    using keys by auto
  consider (ac) "v = js ''AC''" | (c) "v = js ''C''" | (eq) "v = js ''=''"
    | (app) "v \<noteq> js ''AC''" "v \<noteq> js ''C''" "v \<noteq> js ''=''"
    by blast
  then show ?case
  proof cases
    case ac
    with H show ?thesis by (simp add: handleButton_AC tidy_Nil)
  next
    case c
    from tidy_prefix [OF prefix_slice_init d] H show ?thesis
      unfolding c by (simp add: handleButton_C)
  next
    case eq
    show ?thesis
    proof (cases "display st = []")
      case True
      with d H show ?thesis
        unfolding eq by (simp add: handleButton_equals calculateResult_rounded)
    next
      case False
      show ?thesis
      proof (cases "rounded h (display st)")
        case None
        with False H show ?thesis
          unfolding eq by (simp add: handleButton_equals calculateResult_rounded tidy_Error)
      next
        case (Some n)
        let ?R = "toString h n"
        let ?H = "history st @ [display st @ js '' = '' @ ?R]"
        have sub: "set (history st) \<subseteq> set ?H" by auto
        from host Some have R: "\<not> adjacent_ops ?R" "\<not> adjacent_dots ?R"
          by blast+
        have "starts_with_operator ?R \<longrightarrow> result_led ?H ?R"
          unfolding result_led_def by auto
        with R have tR: "tidy ?H ?R"
          by (simp add: tidy_def)
        have tH: "\<exists>d r. item = d @ js '' = '' @ r \<and> tidy ?H d" if "item \<in> set ?H" for item
        proof (cases "item \<in> set (history st)")
          case True
          with H obtain d0 r0 where "item = d0 @ js '' = '' @ r0" "tidy (history st) d0"
            by blast
          with tidy_mono [OF sub] show ?thesis by blast
        next
          case False
          with that have "item = display st @ js '' = '' @ ?R" by simp
          with tidy_mono [OF sub d] show ?thesis by blast
        qed
        have st': "display (step h (KeyClick (js ''='')) st) = ?R"
          "history (step h (KeyClick (js ''='')) st) = ?H"
          using False Some by (simp_all add: handleButton_equals calculateResult_rounded)
        from tR tH show ?thesis
          unfolding eq st' by blast
      qed
    qed
  next
    case app
    have "tidy (history st) (display st @ appended v)" if "\<not> rejected (display st) v"
      using tidy_accept [OF d that v] .
    with d H show ?thesis
      by (simp add: handleButton_appending [OF app])
  qed
next
  case (reach_history st item)
  then obtain d r where item: "item = d @ js '' = '' @ r" and t: "tidy (history st) d"
    by blast
  have "prefix (split_head (js '' = '') item) d"
    unfolding item by (rule split_head_prefix)
  from tidy_prefix [OF this t] reach_history.IH show ?case
    by (simp add: handleHistoryClick_def Let_def)
qed

text \<open>
  C3, as amended. Let every key label be an operator, the decimal point, or a label
  without operators and points in it, and let no number print with two operators or
  two points in a row. Then in every reachable state the display has no two
  consecutive binary operators and no two consecutive decimal points, and it starts
  with a binary operator only when the history holds a record whose result starts
  with that operator: the sign of a negative result is the only source of a leading
  operator, and no key press or history selection brings one in by itself.
\<close>

theorem expression_shape:
  assumes "\<forall>k\<in>set ks. isOperator k \<or> k = js ''.'' \<or> plain k"
    and "\<forall>d n. rounded h d = Some n \<longrightarrow>
           \<not> adjacent_ops (toString h n) \<and> \<not> adjacent_dots (toString h n)"
    and "reachable h ks st"
  shows "\<not> adjacent_ops (display st) \<and> \<not> adjacent_dots (display st)
       \<and> (starts_with_operator (display st) \<longrightarrow>
            (\<exists>d r. d @ js '' = '' @ r \<in> set (history st)
                  \<and> starts_with_operator r \<and> hd r = hd (display st)))"
  using reachable_tidy [OF assms] by (simp add: tidy_def result_led_def)

lemma keys_shape: "\<forall>k\<in>set keys. isOperator k \<or> k = js ''.'' \<or> plain k"
  by (simp add: keys_def plain_def isOperator_def js_def radic_def)

lemma sample_shape:
  "\<forall>d n. rounded sample d = Some n \<longrightarrow>
     \<not> adjacent_ops (toString sample n) \<and> \<not> adjacent_dots (toString sample n)"
proof (intro allI impI)
  fix d :: jsstring and n :: int
  have digits: "plain (showNat m)" for m
    using showNat_units [of m] by (auto simp: plain_def list_all_iff isOperator_def js_def)
  have signed: "\<not> adjacent_ops (js ''-'' @ ds) \<and> \<not> adjacent_dots (js ''-'' @ ds)"
    if "plain ds" for ds
    using plain_shape [OF that]
    by (auto simp: adjacent_ops_def adjacent_dots_def adjacent_Cons js_def)
  have "toString sample n = showInt n"
    by (simp add: sample_def)
  with signed [OF digits] plain_shape(1,2) [OF digits]
  show "\<not> adjacent_ops (toString sample n) \<and> \<not> adjacent_dots (toString sample n)"
    by (simp add: showInt_def)
qed

theorem expression_shape_witness:
  "reachable sample keys
     (run sample (map KeyClick [js ''1'', js ''-'', js ''2'', js ''='', js ''+'', js ''+'', js ''2'']) init)
   \<and> display
       (run sample (map KeyClick [js ''1'', js ''-'', js ''2'', js ''='', js ''+'', js ''+'', js ''2'']) init)
       = js ''-1+2''
   \<and> \<not> adjacent_ops (js ''-1+2'') \<and> \<not> adjacent_dots (js ''-1+2'')
   \<and> js ''1-2'' @ js '' = '' @ js ''-1''
       \<in> set (history
           (run sample (map KeyClick [js ''1'', js ''-'', js ''2'', js ''='', js ''+'', js ''+'', js ''2'']) init))"
proof -
  let ?vs = "[js ''1'', js ''-'', js ''2'', js ''='', js ''+'', js ''+'', js ''2'']"
  have r: "reachable sample keys (run sample (map KeyClick ?vs) init)"
    by (rule reachable_run [OF reach_init]) (simp add: keys_def)
  have s: "run sample (map KeyClick ?vs) init =
             \<lparr>showResult = False, display = js ''-1+2'', history = [js ''1-2 = -1''],
              partialResult = js ''1''\<rparr>"
    by (simp add: run_defs)
  from expression_shape [OF keys_shape sample_shape r] r show ?thesis
    unfolding s by (simp add: js_def)
qed

text \<open>
  The claim as it was stated fails after a negative result: the keys 1, -, 2, = leave
  the display \<open>-1\<close>, which starts with the operator \<open>-\<close>.
\<close>

theorem negative_result_counterexample:
  "reachable sample keys
     (run sample (map KeyClick [js ''1'', js ''-'', js ''2'', js ''='']) init)
   \<and> display (run sample (map KeyClick [js ''1'', js ''-'', js ''2'', js ''='']) init) = js ''-1''
   \<and> starts_with_operator
       (display (run sample (map KeyClick [js ''1'', js ''-'', js ''2'', js ''='']) init))"
proof -
  let ?vs = "[js ''1'', js ''-'', js ''2'', js ''='']"
  have r: "reachable sample keys (run sample (map KeyClick ?vs) init)"
    by (rule reachable_run [OF reach_init]) (simp add: keys_def)
  have s: "run sample (map KeyClick ?vs) init =
             \<lparr>showResult = True, display = js ''-1'', history = [js ''1-2 = -1''],
              partialResult = []\<rparr>"
    by (simp add: run_defs)
  have "starts_with_operator (js ''-1'')"
    by (simp add: starts_with_operator_def isOperator_def js_def)
  with r show ?thesis
    unfolding s by simp
qed

end
